theory Spec2Isabelle
  imports Main
begin

section \<open>The login page of ddg-email-panel (src/pages/login.tsx)\<close>

text \<open>
  The page holds four module-level atoms (\<open>usernameAtom\<close>, \<open>otpAtom\<close>,
  \<open>loadingAtom\<close>, \<open>stepAtom\<close>) and renders one of two components,
  \<open>EnterUsername\<close> or \<open>EnterOtp\<close>, by the value of \<open>stepAtom\<close>. Each
  component has a submit handler \<open>continueHandle\<close> that validates its input, issues a
  network call and attaches a promise chain \<open>.then(...).catch(...).finally(...)\<close> to it.

  The embedding keeps the atoms, the network calls in flight (each with the promise chain
  the source attached to it) and the list of effects on the outside world (toasts, console
  output, network calls, calls of the account store, navigation) in one state record.
  JavaScript strings are modelled as byte strings (\<open>string\<close>); only ASCII white space
  and ASCII letters and digits are distinguished.
\<close>

subsection \<open>Data\<close>

datatype step = EnterUsername | EnterOtp

text \<open>The \<open>user\<close> object of a login response (lines 148-155).\<close>

record user =
  access_token :: string
  cohort :: string
  email :: string
  username :: string

text \<open>
  The object handed to \<open>store.addAccount\<close> (lines 159-163 and 169-173): the spread
  \<open>...user\<close> followed by \<open>remark\<close> and \<open>nextAlias\<close>.
\<close>

record account = user +
  remark :: string
  nextAlias :: string

text \<open>
  What a rejected request hands to \<open>.catch\<close>: the handlers read \<open>res?.status\<close>,
  \<open>res.statusText\<close> and \<open>res.message\<close>. \<open>status\<close> is \<open>None\<close> where the
  property is undefined (a transport error has a message and no status).
\<close>

record rejection =
  status :: "nat option"
  statusText :: string
  message :: string

text \<open>The value a promise is fulfilled with.\<close>

datatype jsval = Undefined | LoginResult user | AliasResult string

datatype settled = Fulfilled jsval | Rejected rejection

text \<open>
  A network call: \<open>fetch(url, {method: 'POST', body: JSON.stringify({...})})\<close> with the
  fields of its JSON body, or \<open>generateAddresses(access_token)\<close>.
\<close>

datatype call = Fetch string "(string \<times> string) list" | GenerateAddresses string

text \<open>
  The callbacks of the three promise chains. The callbacks of the inner chain
  (lines 158-180) close over \<open>user\<close>.
\<close>

datatype then_callback = OtpThen | LoginThen | AliasThen user
datatype catch_callback = OtpCatch | LoginCatch | AliasCatch user
datatype finally_callback = OtpFinally | LoginFinally | AliasFinally

datatype reaction = Then then_callback | Catch catch_callback | Finally finally_callback

datatype effect =
    ToastError string
  | ToastSuccess string
  | ConsoleLog string rejection
  | Issued call
  | Settled call settled
  | AddAccount account nat
  | RouterPush string

text \<open>
  The collaborators that are imported from other modules: the translation function
  \<open>t\<close>, \<open>maskEmail\<close> and \<open>store.addAccount\<close>, which takes the store (of any
  type \<open>'s\<close>) and the record and returns the index and the new store.
\<close>

record 's env =
  t :: "string \<Rightarrow> string"
  maskEmail :: "string \<Rightarrow> string"
  addAccount :: "'s \<Rightarrow> account \<Rightarrow> nat \<times> 's"

record 's core =
  usernameAtom :: string
  otpAtom :: string
  loadingAtom :: bool
  stepAtom :: step
  accounts :: 's
  inflight :: "(call \<times> reaction list) list"
  trace :: "effect list"

text \<open>The atoms' initial values (lines 17-20), nothing in flight, nothing observed.\<close>

definition initial :: "'s \<Rightarrow> 's core" where
  "initial s0 = \<lparr>usernameAtom = [], otpAtom = [], loadingAtom = False,
     stepAtom = EnterUsername, accounts = s0, inflight = [], trace = []\<rparr>"

subsection \<open>Strings\<close>

text \<open>
  Modelled from the spec: the constant \<open>USERNAME_REGEX\<close> of \<open>lib/constants\<close> is not
  under src/. The spec describes the identifier as "constrained to an allowed character
  set (letters and digits only), non-empty"; \<open>USERNAME_REGEX_test s\<close> is
  \<open>USERNAME_REGEX.test(s)\<close> for that pattern.
\<close>

definition letter_or_digit :: "char \<Rightarrow> bool" where
  "letter_or_digit ch =
     (let n = (of_char ch :: nat)
      in (48 \<le> n \<and> n \<le> 57) \<or> (65 \<le> n \<and> n \<le> 90) \<or> (97 \<le> n \<and> n \<le> 122))"

definition USERNAME_REGEX_test :: "string \<Rightarrow> bool" where
  "USERNAME_REGEX_test s = (s \<noteq> [] \<and> list_all letter_or_digit s)"

text \<open>\<open>String.prototype.trim\<close> on ASCII: tab, LF, VT, FF, CR and space are stripped.\<close>

definition white_space :: "char \<Rightarrow> bool" where
  "white_space ch = ((of_char ch :: nat) \<in> {9, 10, 11, 12, 13, 32})"

definition trim :: "string \<Rightarrow> string" where
  "trim s = rev (dropWhile white_space (rev (dropWhile white_space s)))"

text \<open>A number in a template literal: its decimal digits.\<close>

fun string_of_nat :: "nat \<Rightarrow> string" where
  "string_of_nat n =
     (if n < 10 then [''0123456789'' ! n]
      else string_of_nat (n div 10) @ [''0123456789'' ! (n mod 10)])"

declare string_of_nat.simps [simp del]

subsection \<open>The requests (lines 22-39)\<close>

definition otpRequest :: "string \<Rightarrow> call" where
  "otpRequest username' = Fetch ''/api/auth/loginlink'' [(''username'', username')]"

definition loginRequest :: "string \<Rightarrow> string \<Rightarrow> call" where
  "loginRequest username' otp = Fetch ''/api/auth/login'' [(''username'', username'), (''otp'', otp)]"

subsection \<open>Effects\<close>

definition emit :: "effect \<Rightarrow> 's core \<Rightarrow> 's core" where
  "emit e c = c\<lparr>trace := trace c @ [e]\<rparr>"

definition toast_error :: "string \<Rightarrow> 's core \<Rightarrow> 's core" where
  "toast_error msg c = emit (ToastError msg) c"

definition toast_success :: "string \<Rightarrow> 's core \<Rightarrow> 's core" where
  "toast_success msg c = emit (ToastSuccess msg) c"

definition console_log :: "string \<Rightarrow> rejection \<Rightarrow> 's core \<Rightarrow> 's core" where
  "console_log label res c = emit (ConsoleLog label res) c"

definition router_push :: "string \<Rightarrow> 's core \<Rightarrow> 's core" where
  "router_push url c = emit (RouterPush url) c"

definition setUsername :: "string \<Rightarrow> 's core \<Rightarrow> 's core" where
  "setUsername v c = c\<lparr>usernameAtom := v\<rparr>"

definition setOtp :: "string \<Rightarrow> 's core \<Rightarrow> 's core" where
  "setOtp v c = c\<lparr>otpAtom := v\<rparr>"

definition setLoading :: "bool \<Rightarrow> 's core \<Rightarrow> 's core" where
  "setLoading b c = c\<lparr>loadingAtom := b\<rparr>"

definition setStep :: "step \<Rightarrow> 's core \<Rightarrow> 's core" where
  "setStep s c = c\<lparr>stepAtom := s\<rparr>"

text \<open>
  Issuing a call and attaching a chain of reactions to the promise it returns: the call
  stays in flight until the environment settles it.
\<close>

definition issue :: "call \<Rightarrow> reaction list \<Rightarrow> 's core \<Rightarrow> 's core" where
  "issue rq k c = emit (Issued rq) (c\<lparr>inflight := inflight c @ [(rq, k)]\<rparr>)"

subsection \<open>The callbacks\<close>

text \<open>
  A callback returns the settled state of the promise derived from it: \<open>Fulfilled\<close>
  with its return value, \<open>Rejected\<close> when it throws.

  \<open>OtpThen\<close> is lines 61-63. \<open>LoginThen\<close> is lines 147-181: it reads \<open>user\<close> from
  the response, calls \<open>generateAddresses(user.access_token)\<close>, attaches the inner chain
  and returns nothing (the inner promise is not returned, so the derived promise is
  fulfilled with \<open>undefined\<close> at once). \<open>AliasThen\<close> is lines 158-166. Reading
  \<open>user.access_token\<close> or \<open>res.address\<close> from a response of another shape throws a
  \<open>TypeError\<close>.
\<close>

definition type_error :: rejection where
  "type_error = \<lparr>status = None, statusText = [], message = ''TypeError''\<rparr>"

definition alias_chain :: "user \<Rightarrow> reaction list" where
  "alias_chain usr = [Then (AliasThen usr), Catch (AliasCatch usr), Finally AliasFinally]"

fun run_then :: "'s env \<Rightarrow> then_callback \<Rightarrow> jsval \<Rightarrow> 's core \<Rightarrow> settled \<times> 's core" where
  "run_then E OtpThen res c = (Fulfilled Undefined, setStep EnterOtp c)"
| "run_then E LoginThen (LoginResult usr) c =
     (Fulfilled Undefined, issue (GenerateAddresses (access_token usr)) (alias_chain usr) c)"
| "run_then E LoginThen res c = (Rejected type_error, c)"
| "run_then E (AliasThen usr) (AliasResult address) c =
     (let record = user.extend usr (account.fields (maskEmail E (email usr)) address);
          (userIndex, store') = addAccount E (accounts c) record;
          c1 = emit (AddAccount record userIndex) (c\<lparr>accounts := store'\<rparr>);
          c2 = router_push (''/email/?id='' @ string_of_nat userIndex) c1
      in (Fulfilled Undefined, c2))"
| "run_then E (AliasThen usr) res c = (Rejected type_error, c)"

text \<open>
  \<open>has_status res\<close> is the test \<open>if (res?.status)\<close>: the property is there and is
  not the falsy number 0.
\<close>

definition has_status :: "rejection \<Rightarrow> bool" where
  "has_status res = (case status res of None \<Rightarrow> False | Some n \<Rightarrow> n \<noteq> 0)"

definition status_line :: "rejection \<Rightarrow> string" where
  "status_line res = string_of_nat (the (status res)) @ '' - '' @ statusText res"

text \<open>
  \<open>OtpCatch\<close> is lines 64-72, \<open>LoginCatch\<close> lines 182-194, \<open>AliasCatch\<close>
  lines 167-177. \<open>status_line\<close> is the template \<open>`${res.status} - ${res.statusText}`\<close>,
  read only where \<open>has_status\<close> holds.
\<close>

fun run_catch :: "'s env \<Rightarrow> catch_callback \<Rightarrow> rejection \<Rightarrow> 's core \<Rightarrow> settled \<times> 's core" where
  "run_catch E OtpCatch res c =
     (let c1 = console_log ''send login link error'' res c
      in (Fulfilled Undefined,
          if has_status res then toast_error (status_line res) c1
          else toast_error (message res) c1))"
| "run_catch E LoginCatch res c =
     (let c1 = console_log ''login error'' res c
      in (Fulfilled Undefined,
          if has_status res then
            (if status res = Some 401 then toast_error (t E ''Unauthorized'') c1
             else toast_error (status_line res) c1)
          else toast_error (message res) c1))"
| "run_catch E (AliasCatch usr) res c =
     (let c0 = console_log ''generate alias error'' res c;
          record = user.extend usr (account.fields (maskEmail E (email usr)) []);
          (userIndex, store') = addAccount E (accounts c0) record;
          c1 = emit (AddAccount record userIndex) (c0\<lparr>accounts := store'\<rparr>);
          c2 = router_push (''/email/?id='' @ string_of_nat userIndex) c1
      in (Fulfilled Undefined, c2))"

text \<open>Lines 73 and 195 clear the loading flag; lines 178-180 show the success toast.\<close>

fun run_finally :: "'s env \<Rightarrow> finally_callback \<Rightarrow> 's core \<Rightarrow> 's core" where
  "run_finally E OtpFinally c = setLoading False c"
| "run_finally E LoginFinally c = setLoading False c"
| "run_finally E AliasFinally c = toast_success (t E ''Login Success'') c"

subsection \<open>Promise chains and the microtask queue\<close>

text \<open>
  One reaction of a chain \<open>p.then(f).catch(g).finally(h)\<close>, run as a microtask once the
  promise before it is settled: \<open>then\<close> runs its callback on fulfilment and passes a
  rejection on, \<open>catch\<close> runs its callback on rejection and passes a value on,
  \<open>finally\<close> runs its callback and passes the settled state on. The result is the
  settled state of the derived promise.
\<close>

fun react :: "'s env \<Rightarrow> settled \<Rightarrow> reaction \<Rightarrow> 's core \<Rightarrow> settled \<times> 's core" where
  "react E (Fulfilled v) (Then f) c = run_then E f v c"
| "react E (Rejected e) (Then f) c = (Rejected e, c)"
| "react E (Fulfilled v) (Catch g) c = (Fulfilled v, c)"
| "react E (Rejected e) (Catch g) c = run_catch E g e c"
| "react E s (Finally h) c = (s, run_finally E h c)"

text \<open>
  The microtask queue: each entry is a settled promise with the reactions still chained
  behind it. The queue is drained first in, first out; the reaction of a derived promise
  is queued behind the entries that are already there.
\<close>

function drain :: "'s env \<Rightarrow> (settled \<times> reaction list) list \<Rightarrow> 's core \<Rightarrow> 's core" where
  "drain E [] c = c"
| "drain E ((s, []) # q) c = drain E q c"
| "drain E ((s, r # k) # q) c =
     (case react E s r c of (s', c') \<Rightarrow> drain E (q @ [(s', k)]) c')"
  by pat_completeness auto
termination
  by (relation "measure (\<lambda>(E, q, c). sum_list (map (\<lambda>(s, k). Suc (length k)) q))") auto

subsection \<open>The handlers\<close>

text \<open>
  \<open>continueHandle\<close> of \<open>EnterUsername\<close> (lines 49-74). The handler reads the atoms
  as they are when the form is submitted; \<open>event.preventDefault()\<close> has no effect on
  the state. The promise chain is attached to the call, its callbacks run when the call
  is settled.
\<close>

definition otp_chain :: "reaction list" where
  "otp_chain = [Then OtpThen, Catch OtpCatch, Finally OtpFinally]"

definition EnterUsername_continueHandle :: "'s env \<Rightarrow> 's core \<Rightarrow> 's core" where
  "EnterUsername_continueHandle E c =
     (if usernameAtom c = [] then
        toast_error (t E ''Duck Address cannot be empty'') c
      else if \<not> USERNAME_REGEX_test (usernameAtom c) then
        toast_error (t E ''Duck Address can only contain letters and numbers'') c
      else
        issue (otpRequest (usernameAtom c)) otp_chain (setLoading True c))"

text \<open>\<open>continueHandle\<close> of \<open>EnterOtp\<close> (lines 139-196).\<close>

definition login_chain :: "reaction list" where
  "login_chain = [Then LoginThen, Catch LoginCatch, Finally LoginFinally]"

definition EnterOtp_continueHandle :: "'s env \<Rightarrow> 's core \<Rightarrow> 's core" where
  "EnterOtp_continueHandle E c =
     (if otpAtom c = [] then
        toast_error (t E ''One-time Passphrase cannot be empty'') c
      else
        issue (loginRequest (usernameAtom c) (trim (otpAtom c))) login_chain
          (setLoading True c))"

text \<open>
  The \<open>onClick\<close> handler of the Back button of \<open>EnterOtp\<close> (lines 238-241). A click
  on Back is modelled as a run of this handler and nothing else.
\<close>

definition EnterOtp_back_onClick :: "'s core \<Rightarrow> 's core" where
  "EnterOtp_back_onClick c = setStep EnterUsername (setOtp [] c)"

subsection \<open>The page as a transition system\<close>

text \<open>
  What can happen to the page: the user types into the input of the mounted component
  (\<open>usernameHandleChange\<close>, \<open>otpHandleChange\<close>), submits its form, clicks Back, or
  the environment settles a call in flight. \<open>LoginPage\<close> mounts \<open>EnterUsername\<close>
  exactly when \<open>stepAtom\<close> is \<open>EnterUsername\<close> (line 260), and the submit button of
  either form is disabled while \<open>loadingAtom\<close> is set (lines 103 and 224).
\<close>

datatype action =
    UsernameChange string
  | OtpChange string
  | SubmitUsername
  | SubmitOtp
  | Back
  | Settle nat settled

text \<open>
  The type the source gives to the result of each call: the login response is cast to
  \<open>{user: ...}\<close> (line 148) and the alias result has an \<open>address\<close> (line 162); the
  result of the OTP request is not read. A rejection may carry anything. The environment
  settles a call only with a value of that type, so the \<open>TypeError\<close> branches of
  \<open>run_then\<close> are never taken by \<open>perform\<close>.
\<close>

fun expects :: "call \<Rightarrow> settled \<Rightarrow> bool" where
  "expects rq (Rejected e) = True"
| "expects (GenerateAddresses tok) (Fulfilled v) = (case v of AliasResult a \<Rightarrow> True | _ \<Rightarrow> False)"
| "expects (Fetch url body) (Fulfilled v) =
     (if url = ''/api/auth/login'' then (case v of LoginResult u \<Rightarrow> True | _ \<Rightarrow> False)
      else True)"

definition drop_nth :: "nat \<Rightarrow> 'a list \<Rightarrow> 'a list" where
  "drop_nth i xs = take i xs @ drop (Suc i) xs"

text \<open>
  Settling the \<open>i\<close>-th call in flight is one macrotask: the promise is settled, its
  first reaction is queued, and the microtask queue is drained before anything else
  happens.
\<close>

definition settle :: "'s env \<Rightarrow> nat \<Rightarrow> settled \<Rightarrow> 's core \<Rightarrow> 's core" where
  "settle E i s c =
     (if i < length (inflight c) \<and> expects (fst (inflight c ! i)) s then
        (case inflight c ! i of (rq, k) \<Rightarrow>
           drain E [(s, k)] (emit (Settled rq s) (c\<lparr>inflight := drop_nth i (inflight c)\<rparr>)))
      else c)"

fun perform :: "'s env \<Rightarrow> action \<Rightarrow> 's core \<Rightarrow> 's core" where
  "perform E (UsernameChange v) c =
     (if stepAtom c = EnterUsername then setUsername v c else c)"
| "perform E (OtpChange v) c =
     (if stepAtom c = EnterOtp then setOtp v c else c)"
| "perform E SubmitUsername c =
     (if stepAtom c = EnterUsername \<and> \<not> loadingAtom c then EnterUsername_continueHandle E c
      else c)"
| "perform E SubmitOtp c =
     (if stepAtom c = EnterOtp \<and> \<not> loadingAtom c then EnterOtp_continueHandle E c else c)"
| "perform E Back c =
     (if stepAtom c = EnterOtp then EnterOtp_back_onClick c else c)"
| "perform E (Settle i s) c = settle E i s c"

text \<open>The states the page can be in: from the initial one, any number of actions.\<close>

inductive reachable :: "'s env \<Rightarrow> 's \<Rightarrow> 's core \<Rightarrow> bool" for E :: "'s env" and s0 :: 's where
  init: "reachable E s0 (initial s0)"
| step: "reachable E s0 c \<Longrightarrow> reachable E s0 (perform E a c)"

text \<open>
  The chains the source attaches: the invariant of the calls in flight. An OTP request
  carries the chain of lines 61-73, a login request that of lines 147-195, and an alias
  call that of lines 158-180, closed over the user whose token it was issued with.
\<close>

definition attached :: "call \<times> reaction list \<Rightarrow> bool" where
  "attached e =
     ((\<exists>u. e = (otpRequest u, otp_chain)) \<or>
      (\<exists>u p. e = (loginRequest u p, login_chain)) \<or>
      (\<exists>usr. e = (GenerateAddresses (access_token usr), alias_chain usr)))"

subsection \<open>Observations on the trace\<close>

fun store_calls :: "effect list \<Rightarrow> (account \<times> nat) list" where
  "store_calls [] = []"
| "store_calls (AddAccount r i # es) = (r, i) # store_calls es"
| "store_calls (e # es) = store_calls es"

fun navigations :: "effect list \<Rightarrow> string list" where
  "navigations [] = []"
| "navigations (RouterPush url # es) = url # navigations es"
| "navigations (e # es) = navigations es"

fun network_calls :: "effect list \<Rightarrow> call list" where
  "network_calls [] = []"
| "network_calls (Issued rq # es) = rq # network_calls es"
| "network_calls (e # es) = network_calls es"

text \<open>Whether an action settles a call of \<open>generateAddresses\<close> that is in flight.\<close>

definition is_alias_call :: "call \<Rightarrow> bool" where
  "is_alias_call rq = (case rq of GenerateAddresses tok \<Rightarrow> True | Fetch url body \<Rightarrow> False)"

definition settles_alias :: "'s core \<Rightarrow> action \<Rightarrow> bool" where
  "settles_alias c a =
     (case a of Settle j s \<Rightarrow> j < length (inflight c) \<and> is_alias_call (fst (inflight c ! j))
      | _ \<Rightarrow> False)"

subsection \<open>The scenario of the spec, for concrete runs\<close>

text \<open>
  A store that appends and returns the position, the identity translation and a mask
  that keeps the first character. User \<open>alice1\<close> as in the spec's scenario.
\<close>

definition demo_env :: "account list env" where
  "demo_env = \<lparr>t = (\<lambda>key. key), maskEmail = (\<lambda>e. take 1 e @ ''***''),
     addAccount = (\<lambda>s a. (length s, s @ [a]))\<rparr>"

definition alice :: user where
  "alice = \<lparr>access_token = ''tok'', cohort = ''c1'', email = ''alice1@duck.com'',
     username = ''alice1''\<rparr>"

definition demo_run :: "action list \<Rightarrow> account list core" where
  "demo_run as = foldl (\<lambda>c a. perform demo_env a c) (initial []) as"

text \<open>
  The steps of the scenario: the OTP request for \<open>alice1\<close> succeeds, the OTP
  \<open>" 123456 "\<close> is submitted, and the login request succeeds.
\<close>

definition to_otp_sent :: "action list" where
  "to_otp_sent = [UsernameChange ''alice1'', SubmitUsername]"

definition to_otp_step :: "action list" where
  "to_otp_step = to_otp_sent @ [Settle 0 (Fulfilled Undefined)]"

definition to_login_sent :: "action list" where
  "to_login_sent = to_otp_step @ [OtpChange '' 123456 '', SubmitOtp]"

definition to_alias_sent :: "action list" where
  "to_alias_sent = to_login_sent @ [Settle 0 (Fulfilled (LoginResult alice))]"

definition server_error :: rejection where
  "server_error = \<lparr>status = Some 500, statusText = ''Server Error'', message = []\<rparr>"

definition unauthorized :: rejection where
  "unauthorized = \<lparr>status = Some 401, statusText = ''Unauthorized'', message = []\<rparr>"

definition transport_error :: rejection where
  "transport_error = \<lparr>status = None, statusText = [], message = ''Failed to fetch''\<rparr>"

section \<open>Properties\<close>

subsection \<open>Evaluating one macrotask\<close>

lemmas effect_defs = emit_def toast_error_def toast_success_def console_log_def
  router_push_def setUsername_def setOtp_def setLoading_def setStep_def issue_def

lemma expects_otp: "expects (otpRequest u) s"
  by (cases s) (simp_all add: otpRequest_def)

lemma settle_otp_fulfilled:
  assumes "i < length (inflight c)" and "inflight c ! i = (otpRequest u, otp_chain)"
  shows "settle E i (Fulfilled v) c =
    c\<lparr>loadingAtom := False, stepAtom := EnterOtp, inflight := drop_nth i (inflight c),
       trace := trace c @ [Settled (otpRequest u) (Fulfilled v)]\<rparr>"
  using assms by (simp add: settle_def expects_otp otp_chain_def effect_defs)

lemma settle_otp_rejected:
  assumes "i < length (inflight c)" and "inflight c ! i = (otpRequest u, otp_chain)"
  shows "settle E i (Rejected res) c =
    c\<lparr>loadingAtom := False, inflight := drop_nth i (inflight c),
       trace := trace c @ [Settled (otpRequest u) (Rejected res),
         ConsoleLog ''send login link error'' res,
         ToastError (if has_status res then status_line res else message res)]\<rparr>"
  using assms by (simp add: settle_def otp_chain_def effect_defs)

lemma settle_login_fulfilled:
  assumes "i < length (inflight c)" and "inflight c ! i = (loginRequest u p, login_chain)"
  shows "settle E i (Fulfilled (LoginResult usr)) c =
    c\<lparr>loadingAtom := False,
       inflight := drop_nth i (inflight c) @
         [(GenerateAddresses (access_token usr), alias_chain usr)],
       trace := trace c @ [Settled (loginRequest u p) (Fulfilled (LoginResult usr)),
         Issued (GenerateAddresses (access_token usr))]\<rparr>"
  using assms by (simp add: settle_def loginRequest_def login_chain_def effect_defs)

lemma settle_login_rejected:
  assumes "i < length (inflight c)" and "inflight c ! i = (loginRequest u p, login_chain)"
  shows "settle E i (Rejected res) c =
    c\<lparr>loadingAtom := False, inflight := drop_nth i (inflight c),
       trace := trace c @ [Settled (loginRequest u p) (Rejected res),
         ConsoleLog ''login error'' res,
         ToastError (if has_status res then
                       (if status res = Some 401 then t E ''Unauthorized''
                        else status_line res)
                     else message res)]\<rparr>"
  using assms by (simp add: settle_def login_chain_def effect_defs)

lemma settle_alias_fulfilled:
  assumes "i < length (inflight c)"
    and "inflight c ! i = (GenerateAddresses tok, alias_chain usr)"
  shows "settle E i (Fulfilled (AliasResult address)) c =
    (let record = user.extend usr (account.fields (maskEmail E (email usr)) address);
         (userIndex, store') = addAccount E (accounts c) record
     in c\<lparr>accounts := store', inflight := drop_nth i (inflight c),
          trace := trace c @
            [Settled (GenerateAddresses tok) (Fulfilled (AliasResult address)),
             AddAccount record userIndex,
             RouterPush (''/email/?id='' @ string_of_nat userIndex),
             ToastSuccess (t E ''Login Success'')]\<rparr>)"
  using assms by (simp add: settle_def alias_chain_def effect_defs Let_def split: prod.split)

lemma settle_alias_rejected:
  assumes "i < length (inflight c)"
    and "inflight c ! i = (GenerateAddresses tok, alias_chain usr)"
  shows "settle E i (Rejected res) c =
    (let record = user.extend usr (account.fields (maskEmail E (email usr)) []);
         (userIndex, store') = addAccount E (accounts c) record
     in c\<lparr>accounts := store', inflight := drop_nth i (inflight c),
          trace := trace c @
            [Settled (GenerateAddresses tok) (Rejected res),
             ConsoleLog ''generate alias error'' res,
             AddAccount record userIndex,
             RouterPush (''/email/?id='' @ string_of_nat userIndex),
             ToastSuccess (t E ''Login Success'')]\<rparr>)"
  using assms by (simp add: settle_def alias_chain_def effect_defs Let_def split: prod.split)

subsection \<open>Every call in flight carries the chain its call site attached\<close>

lemma set_drop_nth: "set (drop_nth i xs) \<subseteq> set xs"
  unfolding drop_nth_def by (auto dest: in_set_takeD in_set_dropD)

lemma attached_cases:
  assumes "attached e"
  obtains (is_otp) u where "e = (otpRequest u, otp_chain)"
    | (is_login) u p where "e = (loginRequest u p, login_chain)"
    | (is_alias) usr where "e = (GenerateAddresses (access_token usr), alias_chain usr)"
  using assms unfolding attached_def by (elim disjE exE) simp_all

lemma attached_settle:
  assumes inv: "\<forall>e \<in> set (inflight c). attached e"
  shows "\<forall>e \<in> set (inflight (settle E i s c)). attached e"
proof (cases "i < length (inflight c) \<and> expects (fst (inflight c ! i)) s")
  case False
  then show ?thesis using inv by (auto simp: settle_def)
next
  case True
  then have i: "i < length (inflight c)" and ex: "expects (fst (inflight c ! i)) s"
    by simp_all
  from i inv have a: "attached (inflight c ! i)" by simp
  have rest: "\<forall>e \<in> set (drop_nth i (inflight c)). attached e"
    using inv set_drop_nth [of i "inflight c"] by auto
  from a show ?thesis
  proof (cases rule: attached_cases)
    case (is_otp u)
    show ?thesis
    proof (cases s)
      case (Fulfilled v)
      then show ?thesis using rest by (simp add: settle_otp_fulfilled [OF i is_otp])
    next
      case (Rejected res)
      then show ?thesis using rest by (simp add: settle_otp_rejected [OF i is_otp])
    qed
  next
    case (is_login u p)
    show ?thesis
    proof (cases s)
      case (Fulfilled v)
      with ex is_login obtain usr where v: "v = LoginResult usr"
        by (cases v) (simp_all add: loginRequest_def)
      have "attached (GenerateAddresses (access_token usr), alias_chain usr)"
        unfolding attached_def by blast
      then show ?thesis using rest Fulfilled v
        by (simp add: settle_login_fulfilled [OF i is_login])
    next
      case (Rejected res)
      then show ?thesis using rest by (simp add: settle_login_rejected [OF i is_login])
    qed
  next
    case (is_alias usr)
    show ?thesis
    proof (cases s)
      case (Fulfilled v)
      with ex is_alias obtain a where v: "v = AliasResult a"
        by (cases v) simp_all
      show ?thesis using rest Fulfilled v
        by (simp add: settle_alias_fulfilled [OF i is_alias] Let_def split: prod.split)
    next
      case (Rejected res)
      then show ?thesis using rest
        by (simp add: settle_alias_rejected [OF i is_alias] Let_def split: prod.split)
    qed
  qed
qed

lemma attached_perform:
  assumes inv: "\<forall>e \<in> set (inflight c). attached e"
  shows "\<forall>e \<in> set (inflight (perform E a c)). attached e"
proof (cases a)
  case (Settle i s)
  then show ?thesis using attached_settle [OF inv] by simp
next
  case SubmitUsername
  have "attached (otpRequest (usernameAtom c), otp_chain)"
    unfolding attached_def by blast
  then show ?thesis using inv SubmitUsername
    by (simp add: EnterUsername_continueHandle_def effect_defs)
next
  case SubmitOtp
  have "attached (loginRequest (usernameAtom c) (trim (otpAtom c)), login_chain)"
    unfolding attached_def by blast
  then show ?thesis using inv SubmitOtp
    by (simp add: EnterOtp_continueHandle_def effect_defs)
qed (use inv in \<open>simp_all add: EnterOtp_back_onClick_def effect_defs\<close>)

lemma reachable_attached:
  "reachable E s0 c \<Longrightarrow> \<forall>e \<in> set (inflight c). attached e"
proof (induction rule: reachable.induct)
  case init
  show ?case by (simp add: initial_def)
next
  case (step c a)
  from step.IH show ?case by (rule attached_perform)
qed

lemma reachable_nth:
  assumes "reachable E s0 c" and "i < length (inflight c)"
  shows "attached (inflight c ! i)"
  using reachable_attached [OF assms(1)] assms(2) by simp

lemma reachable_otp:
  assumes "reachable E s0 c" and "i < length (inflight c)"
    and "fst (inflight c ! i) = otpRequest u"
  shows "inflight c ! i = (otpRequest u, otp_chain)"
  using reachable_nth [OF assms(1,2)] assms(3)
  by (auto simp: attached_def otpRequest_def loginRequest_def)

lemma reachable_login:
  assumes "reachable E s0 c" and "i < length (inflight c)"
    and "fst (inflight c ! i) = loginRequest u p"
  shows "inflight c ! i = (loginRequest u p, login_chain)"
  using reachable_nth [OF assms(1,2)] assms(3)
  by (auto simp: attached_def otpRequest_def loginRequest_def)

lemma store_calls_append: "store_calls (xs @ ys) = store_calls xs @ store_calls ys"
  by (induction xs rule: store_calls.induct) simp_all

lemma navigations_append: "navigations (xs @ ys) = navigations xs @ navigations ys"
  by (induction xs rule: navigations.induct) simp_all

lemma network_calls_append: "network_calls (xs @ ys) = network_calls xs @ network_calls ys"
  by (induction xs rule: network_calls.induct) simp_all

lemma reachable_demo_run: "reachable demo_env [] (demo_run as)"
proof (induction as rule: rev_induct)
  case Nil
  show ?case by (simp add: demo_run_def reachable.init)
next
  case (snoc a as)
  then show ?case by (simp add: demo_run_def reachable.step)
qed

lemma USERNAME_REGEX_test_iff:
  "USERNAME_REGEX_test s \<longleftrightarrow> s \<noteq> [] \<and> (\<forall>ch \<in> set s. letter_or_digit ch)"
  by (simp add: USERNAME_REGEX_test_def list_all_iff)

lemma demo_run_snoc: "demo_run (as @ [a]) = perform demo_env a (demo_run as)"
  by (simp add: demo_run_def)

lemma demo_otp_sent:
  "demo_run to_otp_sent =
     (initial [])\<lparr>usernameAtom := ''alice1'', loadingAtom := True,
        inflight := [(otpRequest ''alice1'', otp_chain)],
        trace := [Issued (otpRequest ''alice1'')]\<rparr>"
  by (simp add: to_otp_sent_def demo_run_def initial_def EnterUsername_continueHandle_def
      USERNAME_REGEX_test_def letter_or_digit_def effect_defs)

lemma demo_otp_step:
  "demo_run to_otp_step =
     (initial [])\<lparr>usernameAtom := ''alice1'', stepAtom := EnterOtp,
        trace := [Issued (otpRequest ''alice1''),
                  Settled (otpRequest ''alice1'') (Fulfilled Undefined)]\<rparr>"
proof -
  have "demo_run to_otp_step = settle demo_env 0 (Fulfilled Undefined) (demo_run to_otp_sent)"
    by (simp add: to_otp_step_def demo_run_snoc)
  also have "\<dots> = (initial [])\<lparr>usernameAtom := ''alice1'', stepAtom := EnterOtp,
        trace := [Issued (otpRequest ''alice1''),
                  Settled (otpRequest ''alice1'') (Fulfilled Undefined)]\<rparr>"
    by (subst settle_otp_fulfilled [where u = "''alice1''"])
       (simp_all add: demo_otp_sent initial_def drop_nth_def)
  finally show ?thesis .
qed

lemma trim_demo: "trim '' 123456 '' = ''123456''"
  by (simp add: trim_def white_space_def)

lemma demo_login_sent:
  "demo_run to_login_sent =
     (initial [])\<lparr>usernameAtom := ''alice1'', otpAtom := '' 123456 '', loadingAtom := True,
        stepAtom := EnterOtp,
        inflight := [(loginRequest ''alice1'' ''123456'', login_chain)],
        trace := [Issued (otpRequest ''alice1''),
                  Settled (otpRequest ''alice1'') (Fulfilled Undefined),
                  Issued (loginRequest ''alice1'' ''123456'')]\<rparr>"
proof -
  have "demo_run to_login_sent =
      perform demo_env SubmitOtp (perform demo_env (OtpChange '' 123456 '') (demo_run to_otp_step))"
    by (simp add: to_login_sent_def demo_run_def)
  then show ?thesis
    by (simp add: demo_otp_step initial_def EnterOtp_continueHandle_def trim_demo effect_defs)
qed

lemma demo_alias_sent:
  "demo_run to_alias_sent =
     (initial [])\<lparr>usernameAtom := ''alice1'', otpAtom := '' 123456 '',
        stepAtom := EnterOtp,
        inflight := [(GenerateAddresses ''tok'', alias_chain alice)],
        trace := [Issued (otpRequest ''alice1''),
                  Settled (otpRequest ''alice1'') (Fulfilled Undefined),
                  Issued (loginRequest ''alice1'' ''123456''),
                  Settled (loginRequest ''alice1'' ''123456'') (Fulfilled (LoginResult alice)),
                  Issued (GenerateAddresses ''tok'')]\<rparr>"
proof -
  have "demo_run to_alias_sent =
     settle demo_env 0 (Fulfilled (LoginResult alice)) (demo_run to_login_sent)"
    by (simp add: to_alias_sent_def demo_run_snoc)
  also have "\<dots> = (initial [])\<lparr>usernameAtom := ''alice1'', otpAtom := '' 123456 '',
        stepAtom := EnterOtp,
        inflight := [(GenerateAddresses ''tok'', alias_chain alice)],
        trace := [Issued (otpRequest ''alice1''),
                  Settled (otpRequest ''alice1'') (Fulfilled Undefined),
                  Issued (loginRequest ''alice1'' ''123456''),
                  Settled (loginRequest ''alice1'' ''123456'') (Fulfilled (LoginResult alice)),
                  Issued (GenerateAddresses ''tok'')]\<rparr>"
    by (subst settle_login_fulfilled [where u = "''alice1''" and p = "''123456''"])
       (simp_all add: demo_login_sent initial_def drop_nth_def alice_def)
  finally show ?thesis .
qed

lemma string_of_nat_demo: "string_of_nat 0 = ''0''" "string_of_nat 500 = ''500''"
  by (simp_all add: string_of_nat.simps)

subsection \<open>The validator\<close>

text \<open>
  Claim C6. The two checks of \<open>continueHandle\<close> (lines 51-58) are the validator. For the
  empty identifier the handler only shows the empty-input message; for a non-empty
  identifier with a character that is not a letter or a digit it only shows the
  invalid-characters message; for a non-empty identifier of letters and digits it shows
  no message and goes on to set the loading flag and issue the OTP request. The messages
  are the translations of the keys of the source.
\<close>

theorem validation_outcomes:
  "(usernameAtom c = [] \<longrightarrow>
      EnterUsername_continueHandle E c =
        c\<lparr>trace := trace c @ [ToastError (t E ''Duck Address cannot be empty'')]\<rparr>) \<and>
   (usernameAtom c \<noteq> [] \<and> (\<exists>ch \<in> set (usernameAtom c). \<not> letter_or_digit ch) \<longrightarrow>
      EnterUsername_continueHandle E c =
        c\<lparr>trace := trace c @
          [ToastError (t E ''Duck Address can only contain letters and numbers'')]\<rparr>) \<and>
   (usernameAtom c \<noteq> [] \<and> (\<forall>ch \<in> set (usernameAtom c). letter_or_digit ch) \<longrightarrow>
      EnterUsername_continueHandle E c =
        c\<lparr>loadingAtom := True,
           inflight := inflight c @ [(otpRequest (usernameAtom c), otp_chain)],
           trace := trace c @ [Issued (otpRequest (usernameAtom c))]\<rparr>)"
  by (auto simp: EnterUsername_continueHandle_def USERNAME_REGEX_test_iff effect_defs)

theorem validation_outcomes_witness:
  "EnterUsername_continueHandle demo_env (initial []) =
     (initial [])\<lparr>trace := [ToastError ''Duck Address cannot be empty'']\<rparr> \<and>
   EnterUsername_continueHandle demo_env ((initial [])\<lparr>usernameAtom := ''a-1''\<rparr>) =
     (initial [])\<lparr>usernameAtom := ''a-1'',
        trace := [ToastError ''Duck Address can only contain letters and numbers'']\<rparr> \<and>
   EnterUsername_continueHandle demo_env ((initial [])\<lparr>usernameAtom := ''alice1''\<rparr>) =
     (initial [])\<lparr>usernameAtom := ''alice1'', loadingAtom := True,
        inflight := [(otpRequest ''alice1'', otp_chain)],
        trace := [Issued (otpRequest ''alice1'')]\<rparr>"
  using validation_outcomes [of "initial []" demo_env]
    validation_outcomes [of "(initial [])\<lparr>usernameAtom := ''a-1''\<rparr>" demo_env]
    validation_outcomes [of "(initial [])\<lparr>usernameAtom := ''alice1''\<rparr>" demo_env]
  by (simp add: initial_def demo_env_def letter_or_digit_def)

subsection \<open>Submitting the identifier\<close>

text \<open>
  Claim C7. When the form of \<open>EnterUsername\<close> is submitted (the component is mounted and
  its button enabled) with an identifier that is empty or holds a character that is not a
  letter or a digit, the only change is one error toast with the validation reason: no
  call is put in flight and none is issued, the step stays \<open>EnterUsername\<close> and the
  loading flag stays unset.
\<close>

theorem invalid_identifier_no_call:
  assumes "stepAtom c = EnterUsername" and "\<not> loadingAtom c"
    and "usernameAtom c = [] \<or> (\<exists>ch \<in> set (usernameAtom c). \<not> letter_or_digit ch)"
  shows "perform E SubmitUsername c =
           c\<lparr>trace := trace c @
             [ToastError (if usernameAtom c = [] then t E ''Duck Address cannot be empty''
                else t E ''Duck Address can only contain letters and numbers'')]\<rparr> \<and>
         inflight (perform E SubmitUsername c) = inflight c \<and>
         network_calls (trace (perform E SubmitUsername c)) = network_calls (trace c) \<and>
         stepAtom (perform E SubmitUsername c) = EnterUsername \<and>
         \<not> loadingAtom (perform E SubmitUsername c)"
  using assms
  by (auto simp: EnterUsername_continueHandle_def USERNAME_REGEX_test_iff effect_defs
      network_calls_append)

theorem invalid_identifier_no_call_witness:
  "perform demo_env SubmitUsername (demo_run [UsernameChange ''a-1'']) =
     (initial [])\<lparr>usernameAtom := ''a-1'',
        trace := [ToastError ''Duck Address can only contain letters and numbers'']\<rparr> \<and>
   inflight (perform demo_env SubmitUsername (demo_run [UsernameChange ''a-1''])) = [] \<and>
   network_calls
     (trace (perform demo_env SubmitUsername (demo_run [UsernameChange ''a-1'']))) = [] \<and>
   perform demo_env SubmitUsername (demo_run []) =
     (initial [])\<lparr>trace := [ToastError ''Duck Address cannot be empty'']\<rparr>"
  using invalid_identifier_no_call [of "demo_run [UsernameChange ''a-1'']" demo_env]
    invalid_identifier_no_call [of "demo_run []" demo_env]
  by (simp add: demo_run_def initial_def demo_env_def letter_or_digit_def effect_defs)

text \<open>
  Claim C8. In every reachable state, when an OTP request in flight is fulfilled (with
  any value), the macrotask that runs its chain ends with the step \<open>EnterOtp\<close> and the
  loading flag cleared.
\<close>

theorem otp_success_advances:
  assumes "reachable E s0 c" and "i < length (inflight c)"
    and "fst (inflight c ! i) = otpRequest u"
  shows "stepAtom (perform E (Settle i (Fulfilled v)) c) = EnterOtp \<and>
         \<not> loadingAtom (perform E (Settle i (Fulfilled v)) c)"
  using settle_otp_fulfilled [OF assms(2) reachable_otp [OF assms]] by simp

theorem otp_success_advances_witness:
  "stepAtom (demo_run to_otp_sent) = EnterUsername \<and>
   loadingAtom (demo_run to_otp_sent) \<and>
   inflight (demo_run to_otp_sent) = [(otpRequest ''alice1'', otp_chain)] \<and>
   stepAtom (perform demo_env (Settle 0 (Fulfilled Undefined)) (demo_run to_otp_sent)) =
     EnterOtp \<and>
   \<not> loadingAtom (perform demo_env (Settle 0 (Fulfilled Undefined)) (demo_run to_otp_sent))"
proof -
  have r: "reachable demo_env [] (demo_run to_otp_sent)" by (rule reachable_demo_run)
  have i: "0 < length (inflight (demo_run to_otp_sent))"
    and f: "fst (inflight (demo_run to_otp_sent) ! 0) = otpRequest ''alice1''"
    by (simp_all add: demo_otp_sent)
  show ?thesis
    using otp_success_advances [OF r i f, of Undefined]
    by (simp add: demo_otp_sent initial_def)
qed

subsection \<open>Cancelling the OTP step\<close>

text \<open>
  Claim C9. The Back handler always ends with the step \<open>EnterUsername\<close> and an empty
  OTP value; it puts no call in flight and has no effect on the outside world; applied
  twice it gives the state it gives applied once, as the bare handler and as the click
  that is only possible while \<open>EnterOtp\<close> is mounted.
\<close>

theorem cancel_otp:
  "stepAtom (EnterOtp_back_onClick c) = EnterUsername \<and>
   otpAtom (EnterOtp_back_onClick c) = [] \<and>
   inflight (EnterOtp_back_onClick c) = inflight c \<and>
   trace (EnterOtp_back_onClick c) = trace c \<and>
   EnterOtp_back_onClick (EnterOtp_back_onClick c) = EnterOtp_back_onClick c \<and>
   perform E Back (perform E Back c) = perform E Back c"
  by (simp add: EnterOtp_back_onClick_def effect_defs)

theorem cancel_otp_witness:
  "EnterOtp_back_onClick ((initial ([] :: account list))\<lparr>otpAtom := ''123456'',
      stepAtom := EnterOtp\<rparr>) = initial []"
  using cancel_otp [of "(initial ([] :: account list))\<lparr>otpAtom := ''123456'',
      stepAtom := EnterOtp\<rparr>" demo_env]
  by (simp add: EnterOtp_back_onClick_def initial_def effect_defs)

text \<open>
  Claim C10. Back leaves the identifier as it was: only \<open>otpAtom\<close> and \<open>stepAtom\<close>
  are written, every other field of the state is unchanged, and a submit of the
  \<open>EnterUsername\<close> form that follows issues the OTP request for the identifier held
  before.
\<close>

theorem cancel_keeps_identifier:
  "usernameAtom (perform E Back c) = usernameAtom c \<and>
   loadingAtom (perform E Back c) = loadingAtom c \<and>
   accounts (perform E Back c) = accounts c \<and>
   inflight (perform E Back c) = inflight c \<and>
   trace (perform E Back c) = trace c \<and>
   EnterOtp_back_onClick c = c\<lparr>otpAtom := [], stepAtom := EnterUsername\<rparr> \<and>
   (stepAtom c = EnterOtp \<and> \<not> loadingAtom c \<and> USERNAME_REGEX_test (usernameAtom c) \<longrightarrow>
      inflight (perform E SubmitUsername (perform E Back c)) =
        inflight c @ [(otpRequest (usernameAtom c), otp_chain)])"
  by (auto simp: EnterOtp_back_onClick_def EnterUsername_continueHandle_def
      USERNAME_REGEX_test_def effect_defs)

theorem cancel_keeps_identifier_witness:
  "usernameAtom (perform demo_env Back (demo_run to_otp_step)) = ''alice1'' \<and>
   stepAtom (perform demo_env Back (demo_run to_otp_step)) = EnterUsername \<and>
   inflight (perform demo_env SubmitUsername (perform demo_env Back (demo_run to_otp_step))) =
     [(otpRequest ''alice1'', otp_chain)]"
  using cancel_keeps_identifier [of demo_env "demo_run to_otp_step"]
  by (simp add: demo_otp_step initial_def EnterOtp_back_onClick_def effect_defs
      USERNAME_REGEX_test_def letter_or_digit_def)

subsection \<open>Failed requests\<close>

lemma status_zero_is_no_status:
  "status res = Some 0 \<Longrightarrow> \<not> has_status res"
  by (simp add: has_status_def)

text \<open>
  Claim C4. In every reachable state, when an OTP request or a login request in flight
  is rejected, the step is unchanged and the loading flag ends cleared. The toast shows
  \<open>status - statusText\<close> when the rejection carries a status code (a non-zero
  \<open>status\<close>: the test \<open>res?.status\<close> reads the number 0 as no status), except that
  a login rejection with status 401 shows the translation of \<open>Unauthorized\<close>; it shows
  the rejection's message when there is no status.
\<close>

theorem failed_request_message:
  assumes "reachable E s0 c" and "i < length (inflight c)"
  shows
   "(fst (inflight c ! i) = otpRequest u \<or> fst (inflight c ! i) = loginRequest u p \<longrightarrow>
       stepAtom (perform E (Settle i (Rejected res)) c) = stepAtom c \<and>
       \<not> loadingAtom (perform E (Settle i (Rejected res)) c)) \<and>
    (fst (inflight c ! i) = otpRequest u \<and> status res = Some n \<and> n \<noteq> 0 \<longrightarrow>
       trace (perform E (Settle i (Rejected res)) c) = trace c @
         [Settled (otpRequest u) (Rejected res), ConsoleLog ''send login link error'' res,
          ToastError (string_of_nat n @ '' - '' @ statusText res)]) \<and>
    (fst (inflight c ! i) = otpRequest u \<and> status res = None \<longrightarrow>
       trace (perform E (Settle i (Rejected res)) c) = trace c @
         [Settled (otpRequest u) (Rejected res), ConsoleLog ''send login link error'' res,
          ToastError (message res)]) \<and>
    (fst (inflight c ! i) = loginRequest u p \<and> status res = Some 401 \<longrightarrow>
       trace (perform E (Settle i (Rejected res)) c) = trace c @
         [Settled (loginRequest u p) (Rejected res), ConsoleLog ''login error'' res,
          ToastError (t E ''Unauthorized'')]) \<and>
    (fst (inflight c ! i) = loginRequest u p \<and> status res = Some n \<and> n \<noteq> 0 \<and> n \<noteq> 401 \<longrightarrow>
       trace (perform E (Settle i (Rejected res)) c) = trace c @
         [Settled (loginRequest u p) (Rejected res), ConsoleLog ''login error'' res,
          ToastError (string_of_nat n @ '' - '' @ statusText res)]) \<and>
    (fst (inflight c ! i) = loginRequest u p \<and> status res = None \<longrightarrow>
       trace (perform E (Settle i (Rejected res)) c) = trace c @
         [Settled (loginRequest u p) (Rejected res), ConsoleLog ''login error'' res,
          ToastError (message res)])"
proof -
  have otp: "settle E i (Rejected res) c =
    c\<lparr>loadingAtom := False, inflight := drop_nth i (inflight c),
       trace := trace c @ [Settled (otpRequest u) (Rejected res),
         ConsoleLog ''send login link error'' res,
         ToastError (if has_status res then status_line res else message res)]\<rparr>"
    if "fst (inflight c ! i) = otpRequest u"
    using settle_otp_rejected [OF assms(2) reachable_otp [OF assms that]] .
  have login: "settle E i (Rejected res) c =
    c\<lparr>loadingAtom := False, inflight := drop_nth i (inflight c),
       trace := trace c @ [Settled (loginRequest u p) (Rejected res),
         ConsoleLog ''login error'' res,
         ToastError (if has_status res then
                       (if status res = Some 401 then t E ''Unauthorized''
                        else status_line res)
                     else message res)]\<rparr>"
    if "fst (inflight c ! i) = loginRequest u p"
    using settle_login_rejected [OF assms(2) reachable_login [OF assms that]] .
  show ?thesis
    using otp login by (auto simp: has_status_def status_line_def)
qed

theorem failed_request_message_witness:
  "stepAtom (perform demo_env (Settle 0 (Rejected server_error)) (demo_run to_otp_sent)) =
     EnterUsername \<and>
   \<not> loadingAtom (perform demo_env (Settle 0 (Rejected server_error)) (demo_run to_otp_sent)) \<and>
   last (trace (perform demo_env (Settle 0 (Rejected server_error)) (demo_run to_otp_sent))) =
     ToastError ''500 - Server Error'' \<and>
   last (trace (perform demo_env (Settle 0 (Rejected transport_error)) (demo_run to_otp_sent))) =
     ToastError ''Failed to fetch'' \<and>
   stepAtom (perform demo_env (Settle 0 (Rejected unauthorized)) (demo_run to_login_sent)) =
     EnterOtp \<and>
   \<not> loadingAtom (perform demo_env (Settle 0 (Rejected unauthorized)) (demo_run to_login_sent)) \<and>
   last (trace (perform demo_env (Settle 0 (Rejected unauthorized)) (demo_run to_login_sent))) =
     ToastError ''Unauthorized'' \<and>
   last (trace (perform demo_env (Settle 0 (Rejected server_error)) (demo_run to_login_sent))) =
     ToastError ''500 - Server Error'' \<and>
   last (trace (perform demo_env (Settle 0 (Rejected transport_error)) (demo_run to_login_sent))) =
     ToastError ''Failed to fetch''"
proof -
  have r1: "reachable demo_env [] (demo_run to_otp_sent)"
    and r2: "reachable demo_env [] (demo_run to_login_sent)"
    by (rule reachable_demo_run)+
  have i1: "0 < length (inflight (demo_run to_otp_sent))"
    and i2: "0 < length (inflight (demo_run to_login_sent))"
    by (simp_all add: demo_otp_sent demo_login_sent)
  have f1: "fst (inflight (demo_run to_otp_sent) ! 0) = otpRequest ''alice1''"
    and f2: "fst (inflight (demo_run to_login_sent) ! 0) = loginRequest ''alice1'' ''123456''"
    by (simp_all add: demo_otp_sent demo_login_sent)
  show ?thesis
    using
      failed_request_message [OF r1 i1, of "''alice1''" "''123456''" server_error 500]
      failed_request_message [OF r1 i1, of "''alice1''" "''123456''" transport_error 500]
      failed_request_message [OF r2 i2, of "''alice1''" "''123456''" unauthorized 401]
      failed_request_message [OF r2 i2, of "''alice1''" "''123456''" server_error 500]
      failed_request_message [OF r2 i2, of "''alice1''" "''123456''" transport_error 500]
      f1 f2
    by (simp add: server_error_def transport_error_def unauthorized_def string_of_nat_demo
        demo_env_def otpRequest_def loginRequest_def demo_otp_sent demo_login_sent initial_def)
qed

subsection \<open>The step\<close>

lemma settle_stepAtom:
  assumes "reachable E s0 c"
  shows "stepAtom (settle E i s c) =
    (if i < length (inflight c) \<and> (\<exists>u. fst (inflight c ! i) = otpRequest u) \<and> (\<exists>v. s = Fulfilled v)
     then EnterOtp else stepAtom c)"
proof (cases "i < length (inflight c) \<and> expects (fst (inflight c ! i)) s")
  case False
  then have "settle E i s c = c" by (auto simp: settle_def)
  moreover have "expects (fst (inflight c ! i)) s" if "fst (inflight c ! i) = otpRequest u" for u
    using that by (simp add: expects_otp)
  ultimately show ?thesis using False by auto
next
  case True
  then have i: "i < length (inflight c)" and ex: "expects (fst (inflight c ! i)) s"
    by simp_all
  from reachable_nth [OF assms i] show ?thesis
  proof (cases rule: attached_cases)
    case (is_otp u)
    then show ?thesis using i
      by (cases s) (auto simp: settle_otp_fulfilled [OF i is_otp] settle_otp_rejected [OF i is_otp])
  next
    case (is_login u p)
    have no: "fst (inflight c ! i) \<noteq> otpRequest u'" for u'
      by (simp add: is_login otpRequest_def loginRequest_def)
    show ?thesis
    proof (cases s)
      case (Fulfilled v)
      with ex is_login obtain usr where v: "v = LoginResult usr"
        by (cases v) (simp_all add: loginRequest_def)
      show ?thesis using no Fulfilled v by (simp add: settle_login_fulfilled [OF i is_login])
    next
      case (Rejected res)
      then show ?thesis using no by (simp add: settle_login_rejected [OF i is_login])
    qed
  next
    case (is_alias usr)
    have no: "fst (inflight c ! i) \<noteq> otpRequest u'" for u'
      by (simp add: is_alias otpRequest_def)
    show ?thesis
    proof (cases s)
      case (Fulfilled v)
      with ex is_alias obtain a where v: "v = AliasResult a"
        by (cases v) simp_all
      show ?thesis using no Fulfilled v
        by (simp add: settle_alias_fulfilled [OF i is_alias] Let_def split: prod.split)
    next
      case (Rejected res)
      then show ?thesis using no
        by (simp add: settle_alias_rejected [OF i is_alias] Let_def split: prod.split)
    qed
  qed
qed

text \<open>
  Claim C5. In every reachable state, an action that changes the step either takes it
  from \<open>EnterUsername\<close> to \<open>EnterOtp\<close> and is the fulfilment of an OTP request in
  flight, or takes it from \<open>EnterOtp\<close> to \<open>EnterUsername\<close> and is the click on
  Back. In particular the rejection of a login request leaves the step as it is.
\<close>

theorem step_changes:
  assumes "reachable E s0 c"
  shows
   "(stepAtom (perform E a c) \<noteq> stepAtom c \<longrightarrow>
       (stepAtom c = EnterUsername \<and> stepAtom (perform E a c) = EnterOtp \<and>
        (\<exists>i v u. a = Settle i (Fulfilled v) \<and> i < length (inflight c) \<and>
           fst (inflight c ! i) = otpRequest u)) \<or>
       (stepAtom c = EnterOtp \<and> stepAtom (perform E a c) = EnterUsername \<and> a = Back)) \<and>
    (j < length (inflight c) \<and> fst (inflight c ! j) = loginRequest u p \<longrightarrow>
       stepAtom (perform E (Settle j (Rejected res)) c) = stepAtom c)"
proof (intro conjI impI)
  assume ch: "stepAtom (perform E a c) \<noteq> stepAtom c"
  show "(stepAtom c = EnterUsername \<and> stepAtom (perform E a c) = EnterOtp \<and>
        (\<exists>i v u. a = Settle i (Fulfilled v) \<and> i < length (inflight c) \<and>
           fst (inflight c ! i) = otpRequest u)) \<or>
       (stepAtom c = EnterOtp \<and> stepAtom (perform E a c) = EnterUsername \<and> a = Back)"
  proof (cases a)
    case (Settle i s)
    with ch have "stepAtom (settle E i s c) \<noteq> stepAtom c" by simp
    then have "i < length (inflight c) \<and> (\<exists>u. fst (inflight c ! i) = otpRequest u) \<and>
        (\<exists>v. s = Fulfilled v) \<and> stepAtom (settle E i s c) = EnterOtp"
      unfolding settle_stepAtom [OF assms] by (auto split: if_splits)
    moreover from this ch Settle have "stepAtom c = EnterUsername"
      by (cases "stepAtom c") auto
    ultimately show ?thesis using Settle by auto
  next
    case Back
    with ch show ?thesis
      by (cases "stepAtom c") (auto simp: EnterOtp_back_onClick_def effect_defs)
  next
    case SubmitUsername
    with ch show ?thesis
      by (auto simp: EnterUsername_continueHandle_def effect_defs split: if_splits)
  next
    case SubmitOtp
    with ch show ?thesis
      by (auto simp: EnterOtp_continueHandle_def effect_defs split: if_splits)
  qed (use ch in \<open>auto simp: effect_defs split: if_splits\<close>)
next
  assume "j < length (inflight c) \<and> fst (inflight c ! j) = loginRequest u p"
  then have "fst (inflight c ! j) \<noteq> otpRequest u'" for u'
    by (simp add: otpRequest_def loginRequest_def)
  then show "stepAtom (perform E (Settle j (Rejected res)) c) = stepAtom c"
    by (simp add: settle_stepAtom [OF assms])
qed

theorem step_changes_witness:
  "stepAtom (demo_run to_otp_sent) = EnterUsername \<and>
   stepAtom (perform demo_env (Settle 0 (Fulfilled Undefined)) (demo_run to_otp_sent)) =
     EnterOtp \<and>
   fst (inflight (demo_run to_otp_sent) ! 0) = otpRequest ''alice1'' \<and>
   stepAtom (demo_run to_login_sent) = EnterOtp \<and>
   stepAtom (perform demo_env Back (demo_run to_login_sent)) = EnterUsername \<and>
   stepAtom (perform demo_env (Settle 0 (Rejected unauthorized)) (demo_run to_login_sent)) =
     EnterOtp"
proof -
  have r1: "reachable demo_env [] (demo_run to_otp_sent)"
    and r2: "reachable demo_env [] (demo_run to_login_sent)"
    by (rule reachable_demo_run)+
  have ch1: "stepAtom (perform demo_env (Settle 0 (Fulfilled Undefined)) (demo_run to_otp_sent))
      \<noteq> stepAtom (demo_run to_otp_sent)"
    using settle_otp_fulfilled [of 0 "demo_run to_otp_sent" "''alice1''" demo_env Undefined]
    by (simp add: demo_otp_sent initial_def)
  have ch2: "stepAtom (perform demo_env Back (demo_run to_login_sent))
      \<noteq> stepAtom (demo_run to_login_sent)"
    by (simp add: demo_login_sent initial_def EnterOtp_back_onClick_def effect_defs)
  have f2: "0 < length (inflight (demo_run to_login_sent)) \<and>
      fst (inflight (demo_run to_login_sent) ! 0) = loginRequest ''alice1'' ''123456''"
    by (simp add: demo_login_sent)
  show ?thesis
    using
      step_changes [OF r1, of "Settle 0 (Fulfilled Undefined)" 0 "''alice1''" "''123456''" unauthorized]
      step_changes [OF r2, of Back 0 "''alice1''" "''123456''" unauthorized]
      ch1 ch2 f2
    by (auto simp: demo_otp_sent demo_login_sent initial_def)
qed

subsection \<open>Submitting the OTP\<close>

lemma submit_otp_empty:
  "otpAtom c = [] \<Longrightarrow> EnterOtp_continueHandle E c =
     c\<lparr>trace := trace c @ [ToastError (t E ''One-time Passphrase cannot be empty'')]\<rparr>"
  by (simp add: EnterOtp_continueHandle_def effect_defs)

lemma submit_otp_nonempty:
  "otpAtom c \<noteq> [] \<Longrightarrow> EnterOtp_continueHandle E c =
     c\<lparr>loadingAtom := True,
       inflight := inflight c @ [(loginRequest (usernameAtom c) (trim (otpAtom c)), login_chain)],
       trace := trace c @ [Issued (loginRequest (usernameAtom c) (trim (otpAtom c)))]\<rparr>"
  by (simp add: EnterOtp_continueHandle_def effect_defs)

text \<open>
  Claim C3. The handler tests the raw value of \<open>otpAtom\<close> for emptiness (line 141) and
  sends the trimmed value (line 146). For the OTP value \<open>" "\<close> the test passes, and the
  login request is issued with the empty string as its OTP.
\<close>

theorem blank_otp_sends_empty_otp:
  "EnterOtp_continueHandle E (c\<lparr>otpAtom := '' ''\<rparr>) =
     c\<lparr>otpAtom := '' '', loadingAtom := True,
       inflight := inflight c @ [(loginRequest (usernameAtom c) [], login_chain)],
       trace := trace c @ [Issued (loginRequest (usernameAtom c) [])]\<rparr>"
  by (simp add: EnterOtp_continueHandle_def trim_def white_space_def effect_defs)

theorem blank_otp_sends_empty_otp_witness:
  "otpAtom (demo_run (to_otp_step @ [OtpChange '' ''])) = '' '' \<and>
   inflight (perform demo_env SubmitOtp (demo_run (to_otp_step @ [OtpChange '' '']))) =
     [(loginRequest ''alice1'' [], login_chain)] \<and>
   network_calls (trace (perform demo_env SubmitOtp
       (demo_run (to_otp_step @ [OtpChange '' ''])))) =
     [otpRequest ''alice1'', loginRequest ''alice1'' []]"
  using blank_otp_sends_empty_otp [of demo_env "demo_run to_otp_step"]
  by (simp add: demo_run_snoc demo_otp_step initial_def effect_defs)

subsection \<open>A successful login\<close>

lemma settle_frame:
  assumes r: "reachable E s0 c"
    and na: "\<not> (i < length (inflight c) \<and> is_alias_call (fst (inflight c ! i)))"
  shows "store_calls (trace (settle E i s c)) = store_calls (trace c) \<and>
         navigations (trace (settle E i s c)) = navigations (trace c) \<and>
         accounts (settle E i s c) = accounts c"
proof (cases "i < length (inflight c) \<and> expects (fst (inflight c ! i)) s")
  case False
  then have "settle E i s c = c" by (auto simp: settle_def)
  then show ?thesis by simp
next
  case True
  then have i: "i < length (inflight c)" and ex: "expects (fst (inflight c ! i)) s"
    by simp_all
  from reachable_nth [OF r i] show ?thesis
  proof (cases rule: attached_cases)
    case (is_otp u)
    then show ?thesis
      by (cases s)
        (simp_all add: settle_otp_fulfilled [OF i is_otp] settle_otp_rejected [OF i is_otp]
          store_calls_append navigations_append)
  next
    case (is_login u p)
    show ?thesis
    proof (cases s)
      case (Fulfilled v)
      with ex is_login obtain usr where v: "v = LoginResult usr"
        by (cases v) (simp_all add: loginRequest_def)
      show ?thesis using Fulfilled v
        by (simp add: settle_login_fulfilled [OF i is_login] store_calls_append
            navigations_append)
    next
      case (Rejected res)
      then show ?thesis
        by (simp add: settle_login_rejected [OF i is_login] store_calls_append
            navigations_append)
    qed
  next
    case (is_alias usr)
    with na i show ?thesis by (simp add: is_alias_call_def)
  qed
qed

text \<open>
  Claim C1. In every reachable state, the fulfilment of a login request with \<open>user\<close>
  puts exactly one alias call in flight, closed over that user, and itself calls neither
  the store nor the router. When that alias call is fulfilled with an address, the store
  is called exactly once, with the user's fields, the masked email and \<open>nextAlias\<close> the
  address, and the router is pushed exactly once, to the URL keyed by the index the store
  returned; when it is rejected, the same happens with \<open>nextAlias\<close> the empty string.
  No action other than settling an alias call calls the store or the router.
\<close>

theorem login_success_persists_once:
  assumes "reachable E s0 c" and "i < length (inflight c)"
    and "fst (inflight c ! i) = loginRequest u p"
    and "j < length (inflight d)"
    and "inflight d ! j = (GenerateAddresses (access_token usr), alias_chain usr)"
  shows
   "(let c' = perform E (Settle i (Fulfilled (LoginResult usr))) c
     in inflight c' = drop_nth i (inflight c) @
          [(GenerateAddresses (access_token usr), alias_chain usr)] \<and>
        store_calls (trace c') = store_calls (trace c) \<and>
        navigations (trace c') = navigations (trace c) \<and>
        accounts c' = accounts c) \<and>
    (let record = user.extend usr (account.fields (maskEmail E (email usr)) address);
         (userIndex, store') = addAccount E (accounts d) record;
         d' = perform E (Settle j (Fulfilled (AliasResult address))) d
     in nextAlias record = address \<and>
        store_calls (trace d') = store_calls (trace d) @ [(record, userIndex)] \<and>
        navigations (trace d') =
          navigations (trace d) @ [''/email/?id='' @ string_of_nat userIndex] \<and>
        accounts d' = store' \<and>
        inflight d' = drop_nth j (inflight d)) \<and>
    (let record = user.extend usr (account.fields (maskEmail E (email usr)) []);
         (userIndex, store') = addAccount E (accounts d) record;
         d' = perform E (Settle j (Rejected res)) d
     in nextAlias record = [] \<and>
        store_calls (trace d') = store_calls (trace d) @ [(record, userIndex)] \<and>
        navigations (trace d') =
          navigations (trace d) @ [''/email/?id='' @ string_of_nat userIndex] \<and>
        accounts d' = store' \<and>
        inflight d' = drop_nth j (inflight d)) \<and>
    (\<not> settles_alias c a \<longrightarrow>
        store_calls (trace (perform E a c)) = store_calls (trace c) \<and>
        navigations (trace (perform E a c)) = navigations (trace c) \<and>
        accounts (perform E a c) = accounts c)"
proof (intro conjI)
  show "let c' = perform E (Settle i (Fulfilled (LoginResult usr))) c
     in inflight c' = drop_nth i (inflight c) @
          [(GenerateAddresses (access_token usr), alias_chain usr)] \<and>
        store_calls (trace c') = store_calls (trace c) \<and>
        navigations (trace c') = navigations (trace c) \<and>
        accounts c' = accounts c"
    by (simp add: settle_login_fulfilled [OF assms(2) reachable_login [OF assms(1-3)]]
        store_calls_append navigations_append)
next
  show "let record = user.extend usr (account.fields (maskEmail E (email usr)) address);
         (userIndex, store') = addAccount E (accounts d) record;
         d' = perform E (Settle j (Fulfilled (AliasResult address))) d
     in nextAlias record = address \<and>
        store_calls (trace d') = store_calls (trace d) @ [(record, userIndex)] \<and>
        navigations (trace d') =
          navigations (trace d) @ [''/email/?id='' @ string_of_nat userIndex] \<and>
        accounts d' = store' \<and>
        inflight d' = drop_nth j (inflight d)"
    by (simp add: settle_alias_fulfilled [OF assms(4,5)] Let_def store_calls_append
        navigations_append user.defs account.defs split: prod.split)
next
  show "let record = user.extend usr (account.fields (maskEmail E (email usr)) []);
         (userIndex, store') = addAccount E (accounts d) record;
         d' = perform E (Settle j (Rejected res)) d
     in nextAlias record = [] \<and>
        store_calls (trace d') = store_calls (trace d) @ [(record, userIndex)] \<and>
        navigations (trace d') =
          navigations (trace d) @ [''/email/?id='' @ string_of_nat userIndex] \<and>
        accounts d' = store' \<and>
        inflight d' = drop_nth j (inflight d)"
    by (simp add: settle_alias_rejected [OF assms(4,5)] Let_def store_calls_append
        navigations_append user.defs account.defs split: prod.split)
next
  show "\<not> settles_alias c a \<longrightarrow>
        store_calls (trace (perform E a c)) = store_calls (trace c) \<and>
        navigations (trace (perform E a c)) = navigations (trace c) \<and>
        accounts (perform E a c) = accounts c"
  proof (cases a)
    case (Settle k s)
    then show ?thesis using settle_frame [OF assms(1), of k s]
      by (simp add: settles_alias_def)
  qed (simp_all add: EnterUsername_continueHandle_def EnterOtp_continueHandle_def
      EnterOtp_back_onClick_def effect_defs store_calls_append navigations_append)
qed

theorem login_success_persists_once_witness:
  "inflight (demo_run to_alias_sent) = [(GenerateAddresses ''tok'', alias_chain alice)] \<and>
   store_calls (trace (demo_run to_alias_sent)) = [] \<and>
   navigations (trace (demo_run to_alias_sent)) = [] \<and>
   store_calls (trace (perform demo_env (Settle 0 (Fulfilled (AliasResult ''xyz123@duck.com'')))
       (demo_run to_alias_sent))) =
     [(\<lparr>access_token = ''tok'', cohort = ''c1'', email = ''alice1@duck.com'',
         username = ''alice1'', remark = ''a***'', nextAlias = ''xyz123@duck.com''\<rparr>, 0)] \<and>
   navigations (trace (perform demo_env (Settle 0 (Fulfilled (AliasResult ''xyz123@duck.com'')))
       (demo_run to_alias_sent))) = [''/email/?id=0''] \<and>
   store_calls (trace (perform demo_env (Settle 0 (Rejected server_error))
       (demo_run to_alias_sent))) =
     [(\<lparr>access_token = ''tok'', cohort = ''c1'', email = ''alice1@duck.com'',
         username = ''alice1'', remark = ''a***'', nextAlias = []\<rparr>, 0)] \<and>
   navigations (trace (perform demo_env (Settle 0 (Rejected server_error))
       (demo_run to_alias_sent))) = [''/email/?id=0''] \<and>
   store_calls (trace (perform demo_env Back (demo_run to_login_sent))) = []"
proof -
  have r: "reachable demo_env [] (demo_run to_login_sent)" by (rule reachable_demo_run)
  have i: "0 < length (inflight (demo_run to_login_sent))"
    and f: "fst (inflight (demo_run to_login_sent) ! 0) = loginRequest ''alice1'' ''123456''"
    by (simp_all add: demo_login_sent)
  have j: "0 < length (inflight (demo_run to_alias_sent))"
    and g: "inflight (demo_run to_alias_sent) ! 0 =
      (GenerateAddresses (access_token alice), alias_chain alice)"
    by (simp_all add: demo_alias_sent alice_def)
  have d: "perform demo_env (Settle 0 (Fulfilled (LoginResult alice))) (demo_run to_login_sent)
      = demo_run to_alias_sent"
    by (simp add: to_alias_sent_def demo_run_snoc)
  have n: "\<not> settles_alias (demo_run to_login_sent) Back"
    by (simp add: settles_alias_def)
  have tr: "store_calls (trace (demo_run to_alias_sent)) = []"
      "navigations (trace (demo_run to_alias_sent)) = []"
      "store_calls (trace (demo_run to_login_sent)) = []"
    by (simp_all add: demo_alias_sent demo_login_sent)
  show ?thesis
    using login_success_persists_once [OF r i f j g,
        of "''xyz123@duck.com''" server_error Back] n
    unfolding d
    by (simp add: tr Let_def demo_env_def alice_def user.defs account.defs
        string_of_nat_demo demo_alias_sent demo_login_sent initial_def)
qed

text \<open>
  Claim C2. The callback of line 147 does not return the promise of the inner chain, so
  the outer \<open>.finally\<close> of line 195 runs in the macrotask in which the login request is
  fulfilled: when that macrotask ends the loading flag is already cleared, while the alias
  call has only been issued and is still in flight.
\<close>

theorem loading_cleared_before_alias_settles:
  assumes "reachable E s0 c" and "i < length (inflight c)"
    and "fst (inflight c ! i) = loginRequest u p"
  shows
   "\<not> loadingAtom (perform E (Settle i (Fulfilled (LoginResult usr))) c) \<and>
    last (inflight (perform E (Settle i (Fulfilled (LoginResult usr))) c)) =
      (GenerateAddresses (access_token usr), alias_chain usr) \<and>
    trace (perform E (Settle i (Fulfilled (LoginResult usr))) c) = trace c @
      [Settled (loginRequest u p) (Fulfilled (LoginResult usr)),
       Issued (GenerateAddresses (access_token usr))]"
  by (simp add: settle_login_fulfilled [OF assms(2) reachable_login [OF assms]])

theorem loading_cleared_before_alias_settles_witness:
  "loadingAtom (demo_run to_login_sent) \<and>
   \<not> loadingAtom (perform demo_env (Settle 0 (Fulfilled (LoginResult alice)))
        (demo_run to_login_sent)) \<and>
   inflight (perform demo_env (Settle 0 (Fulfilled (LoginResult alice)))
        (demo_run to_login_sent)) = [(GenerateAddresses ''tok'', alias_chain alice)] \<and>
   last (trace (perform demo_env (Settle 0 (Fulfilled (LoginResult alice)))
        (demo_run to_login_sent))) = Issued (GenerateAddresses ''tok'')"
proof -
  have r: "reachable demo_env [] (demo_run to_login_sent)" by (rule reachable_demo_run)
  have i: "0 < length (inflight (demo_run to_login_sent))"
    and f: "fst (inflight (demo_run to_login_sent) ! 0) = loginRequest ''alice1'' ''123456''"
    by (simp_all add: demo_login_sent)
  have d: "perform demo_env (Settle 0 (Fulfilled (LoginResult alice))) (demo_run to_login_sent)
      = demo_run to_alias_sent"
    by (simp add: to_alias_sent_def demo_run_snoc)
  show ?thesis
    using loading_cleared_before_alias_settles [OF r i f, of alice]
    unfolding d
    by (simp add: demo_alias_sent demo_login_sent initial_def alice_def)
qed

end
